theory Spec2Isabelle
  imports Complex_Main "HOL-Library.Word"
begin

unbundle bit_operations_syntax

section \<open>Python data as HOL data\<close>

text \<open>
  A Python \<open>bytes\<close> object is a list of 8-bit words, a Python \<open>int\<close> is an \<open>int\<close>,
  a Python \<open>str\<close> is the list of its Unicode code points. Text that the decoder emits
  (JSON) is ASCII only and is kept as a HOL \<open>string\<close>.
\<close>

type_synonym byte = "8 word"
type_synonym bytes = "byte list"
type_synonym pystr = "nat list"

text \<open>
  Every way the Python code can raise. \<open>MalformedVariant\<close> is
  \<open>Exception("Malformed Variant")\<close>, \<open>UnexpectedType t\<close> is
  \<open>Exception("Unexpected Variant type: " + t)\<close>; the others are the exceptions that
  the interpreter and the standard library raise themselves: \<open>IndexError\<close> of an index
  out of range, \<open>StructError\<close> of \<open>struct.unpack\<close> on a buffer of the wrong size,
  \<open>UnicodeDecodeError\<close> of \<open>bytes.decode\<close>, \<open>NameError\<close> of a name that is not
  bound (the module imports \<open>decimal\<close>, never the name \<open>Decimal\<close>).
\<close>

datatype error =
    MalformedVariant
  | UnexpectedType string
  | IndexError
  | StructError
  | UnicodeDecodeError
  | NameError

definition len :: "'a list \<Rightarrow> int" where
  "len xs = int (length xs)"

definition py_index :: "'a list \<Rightarrow> int \<Rightarrow> error + 'a" where
  \<comment> \<open>\<open>xs[i]\<close>: a negative index counts from the end.\<close>
  "py_index xs i =
     (let j = (if i < 0 then i + len xs else i)
      in if 0 \<le> j \<and> j < len xs then Inr (xs ! nat j) else Inl IndexError)"

definition py_slice :: "'a list \<Rightarrow> int \<Rightarrow> int \<Rightarrow> 'a list" where
  \<comment> \<open>\<open>xs[a:b]\<close>: negative bounds count from the end, all bounds are clipped, never raises.\<close>
  "py_slice xs a b =
     (let a' = (if a < 0 then max (a + len xs) 0 else min a (len xs));
          b' = (if b < 0 then max (b + len xs) 0 else min b (len xs))
      in take (nat (b' - a')) (drop (nat a') xs))"

fun from_bytes_unsigned :: "bytes \<Rightarrow> int" where
  "from_bytes_unsigned [] = 0"
| "from_bytes_unsigned (b # bs) = uint b + 256 * from_bytes_unsigned bs"

definition from_bytes :: "bytes \<Rightarrow> bool \<Rightarrow> int" where
  \<comment> \<open>\<open>int.from_bytes(bs, byteorder="little", signed=signed)\<close>\<close>
  "from_bytes bs is_signed =
     (let u = from_bytes_unsigned bs
      in if is_signed \<and> bs \<noteq> [] \<and> 2 ^ (8 * length bs - 1) \<le> u then u - 2 ^ (8 * length bs) else u)"

section \<open>Constants of \<open>VariantUtils\<close>\<close>

definition BASIC_TYPE_BITS :: nat where "BASIC_TYPE_BITS = 2"
definition BASIC_TYPE_MASK :: int where "BASIC_TYPE_MASK = 0x3"
definition TYPE_INFO_MASK :: int where "TYPE_INFO_MASK = 0x3F"

definition PRIMITIVE :: int where "PRIMITIVE = 0"
definition SHORT_STR :: int where "SHORT_STR = 1"
definition OBJECT :: int where "OBJECT = 2"
definition ARRAY :: int where "ARRAY = 3"

definition NULL :: int where "NULL = 0"
definition TRUE :: int where "TRUE = 1"
definition FALSE :: int where "FALSE = 2"
definition INT1 :: int where "INT1 = 3"
definition INT2 :: int where "INT2 = 4"
definition INT4 :: int where "INT4 = 5"
definition INT8 :: int where "INT8 = 6"
definition DOUBLE :: int where "DOUBLE = 7"
definition DECIMAL4 :: int where "DECIMAL4 = 8"
definition DECIMAL8 :: int where "DECIMAL8 = 9"
definition DECIMAL16 :: int where "DECIMAL16 = 10"
definition LONG_STR :: int where "LONG_STR = 16"

definition U32_SIZE :: int where "U32_SIZE = 4"

lemmas variant_consts =
  BASIC_TYPE_BITS_def BASIC_TYPE_MASK_def TYPE_INFO_MASK_def
  PRIMITIVE_def SHORT_STR_def OBJECT_def ARRAY_def
  NULL_def TRUE_def FALSE_def INT1_def INT2_def INT4_def INT8_def DOUBLE_def
  DECIMAL4_def DECIMAL8_def DECIMAL16_def LONG_STR_def U32_SIZE_def

section \<open>The bounds-checked reader and the header decoder\<close>

definition check_index :: "int \<Rightarrow> int \<Rightarrow> error + unit" where
  "check_index pos n =
     (if pos < 0 \<or> pos \<ge> n then Inl MalformedVariant else Inr ())"

definition read_long :: "bytes \<Rightarrow> int \<Rightarrow> int \<Rightarrow> bool \<Rightarrow> error + int" where
  "read_long data pos num_bytes is_signed =
     (case check_index pos (len data) of Inl e \<Rightarrow> Inl e | Inr _ \<Rightarrow>
       (case check_index (pos + num_bytes - 1) (len data) of Inl e \<Rightarrow> Inl e | Inr _ \<Rightarrow>
          Inr (from_bytes (py_slice data pos (pos + num_bytes)) is_signed)))"

definition get_type_info :: "bytes \<Rightarrow> int \<Rightarrow> error + (int \<times> int)" where
  "get_type_info value pos =
     (case py_index value pos of Inl e \<Rightarrow> Inl e | Inr b \<Rightarrow>
      Inr (uint b AND BASIC_TYPE_MASK,
           drop_bit BASIC_TYPE_BITS (uint b) AND TYPE_INFO_MASK))"


section \<open>Strings: UTF-8 decoding, \<open>json.dumps\<close>, \<open>str\<close> of an integer\<close>

definition is_cont :: "byte \<Rightarrow> bool" where
  "is_cont b = (0x80 \<le> unat b \<and> unat b \<le> 0xBF)"

definition cont_bits :: "byte \<Rightarrow> nat" where
  "cont_bits b = unat b mod 64"

text \<open>
  The first code point of a byte string and the number of bytes it takes, as the strict
  UTF-8 codec of \<open>bytes.decode("utf-8")\<close> reads it: shortest forms only, no surrogates,
  nothing above U+10FFFF. \<open>None\<close> where the codec raises.
\<close>

fun utf8_first :: "bytes \<Rightarrow> (nat \<times> nat) option" where
  "utf8_first [] = None"
| "utf8_first (b0 # bs) =
     (let c0 = unat b0 in
      if c0 < 0x80 then Some (c0, 1)
      else if 0xC2 \<le> c0 \<and> c0 \<le> 0xDF then
        (case bs of
           b1 # _ \<Rightarrow>
             if is_cont b1 then Some ((c0 mod 32) * 64 + cont_bits b1, 2) else None
         | _ \<Rightarrow> None)
      else if 0xE0 \<le> c0 \<and> c0 \<le> 0xEF then
        (case bs of
           b1 # b2 # _ \<Rightarrow>
             if is_cont b1 \<and> is_cont b2
                \<and> (if c0 = 0xE0 then 0xA0 \<le> unat b1 else True)
                \<and> (if c0 = 0xED then unat b1 \<le> 0x9F else True)
             then Some (((c0 mod 16) * 64 + cont_bits b1) * 64 + cont_bits b2, 3) else None
         | _ \<Rightarrow> None)
      else if 0xF0 \<le> c0 \<and> c0 \<le> 0xF4 then
        (case bs of
           b1 # b2 # b3 # _ \<Rightarrow>
             if is_cont b1 \<and> is_cont b2 \<and> is_cont b3
                \<and> (if c0 = 0xF0 then 0x90 \<le> unat b1 else True)
                \<and> (if c0 = 0xF4 then unat b1 \<le> 0x8F else True)
             then Some ((((c0 mod 8) * 64 + cont_bits b1) * 64 + cont_bits b2) * 64
                        + cont_bits b3, 4)
             else None
         | _ \<Rightarrow> None)
      else None)"

fun utf8_decode :: "bytes \<Rightarrow> error + pystr" where
  "utf8_decode [] = Inr []"
| "utf8_decode (b # bs) =
     (case utf8_first (b # bs) of
        None \<Rightarrow> Inl UnicodeDecodeError
      | Some (cp, n) \<Rightarrow>
          (case utf8_decode (drop (n - 1) bs) of
             Inl e \<Rightarrow> Inl e
           | Inr cps \<Rightarrow> Inr (cp # cps)))"

definition hex_digit :: "nat \<Rightarrow> char" where
  "hex_digit d = (if d < 10 then char_of (48 + d) else char_of (87 + d))"

definition hex4 :: "nat \<Rightarrow> string" where
  \<comment> \<open>\<open>'{0:04x}'.format(n)\<close> for \<open>n < 0x10000\<close>\<close>
  "hex4 n = [hex_digit (n div 4096 mod 16), hex_digit (n div 256 mod 16),
             hex_digit (n div 16 mod 16), hex_digit (n mod 16)]"

definition json_escape_char :: "nat \<Rightarrow> string" where
  \<comment> \<open>The replacement of one code point by \<open>json.dumps\<close> with \<open>ensure_ascii=True\<close>.\<close>
  "json_escape_char c =
     (if c = 0x22 then [CHR 0x5C, CHR 0x22]
      else if c = 0x5C then [CHR 0x5C, CHR 0x5C]
      else if c = 0x08 then [CHR 0x5C, CHR ''b'']
      else if c = 0x0C then [CHR 0x5C, CHR ''f'']
      else if c = 0x0A then [CHR 0x5C, CHR ''n'']
      else if c = 0x0D then [CHR 0x5C, CHR ''r'']
      else if c = 0x09 then [CHR 0x5C, CHR ''t'']
      else if 0x20 \<le> c \<and> c \<le> 0x7E then [char_of c]
      else if c < 0x10000 then [CHR 0x5C, CHR ''u''] @ hex4 c
      else [CHR 0x5C, CHR ''u''] @ hex4 (0xD800 + ((c - 0x10000) div 1024) mod 1024)
           @ [CHR 0x5C, CHR ''u''] @ hex4 (0xDC00 + (c - 0x10000) mod 1024))"

definition json_dumps :: "pystr \<Rightarrow> string" where
  "json_dumps s = [CHR 0x22] @ concat (map json_escape_char s) @ [CHR 0x22]"

fun str_nat :: "nat \<Rightarrow> string" where
  "str_nat n = (if n < 10 then [char_of (48 + n)] else str_nat (n div 10) @ [char_of (48 + n mod 10)])"

declare str_nat.simps [simp del]

definition str_int :: "int \<Rightarrow> string" where
  "str_int i = (if i < 0 then ''-'' @ str_nat (nat (- i)) else str_nat (nat i))"

fun join :: "string \<Rightarrow> string list \<Rightarrow> string" where
  \<comment> \<open>\<open>sep.join(xs)\<close>\<close>
  "join sep [] = []"
| "join sep [x] = x"
| "join sep (x # y # ys) = x @ sep @ join sep (y # ys)"

section \<open>\<open>decimal.Decimal\<close> in the default context\<close>

text \<open>
  A finite \<open>decimal.Decimal\<close> is a sign, a coefficient and an exponent; its value is
  \<open>(-1)^sign * coefficient * 10^exponent\<close>. The coefficient is kept as a number: Python
  keeps its decimal digits with no leading zero, which \<open>str_nat\<close> gives back.
\<close>

datatype decimal = Decimal (dsign: bool) (dint: nat) (dexp: int)

definition decimal_of_int :: "int \<Rightarrow> decimal" where
  \<comment> \<open>\<open>decimal.Decimal(i)\<close>: exact, whatever the context\<close>
  "decimal_of_int i = Decimal (i < 0) (nat \<bar>i\<bar>) 0"

definition decimal_ten_pow_neg :: "int \<Rightarrow> decimal" where
  \<comment> \<open>\<open>decimal.Decimal(10) ** (-scale)\<close> for \<open>0 \<le> scale\<close>: the exact power \<open>1E-scale\<close>\<close>
  "decimal_ten_pow_neg scale = Decimal False 1 (- scale)"

definition PREC :: nat where
  \<comment> \<open>the precision of the default context: \<open>decimal.getcontext().prec\<close>\<close>
  "PREC = 28"

definition num_digits :: "nat \<Rightarrow> nat" where
  "num_digits n = length (str_nat n)"

definition decimal_fix :: "decimal \<Rightarrow> decimal" where
  \<comment> \<open>The rounding of a result to the context: \<open>PREC\<close> significant digits,
      \<open>ROUND_HALF_EVEN\<close>. The exponents met here are far from \<open>Emin\<close> and \<open>Emax\<close>.\<close>
  "decimal_fix d =
     (if num_digits (dint d) \<le> PREC then d
      else
        let k = num_digits (dint d) - PREC;
            q = dint d div 10 ^ k;
            r = dint d mod 10 ^ k;
            half = 5 * 10 ^ (k - 1);
            q' = (if r > half \<or> (r = half \<and> odd q) then q + 1 else q)
        in if num_digits q' > PREC then Decimal (dsign d) (q' div 10) (dexp d + int k + 1)
           else Decimal (dsign d) q' (dexp d + int k))"

definition decimal_mul :: "decimal \<Rightarrow> decimal \<Rightarrow> decimal" where
  \<comment> \<open>\<open>a * b\<close>: the exact product, then rounded to the context\<close>
  "decimal_mul a b =
     decimal_fix (Decimal (dsign a \<noteq> dsign b) (dint a * dint b) (dexp a + dexp b))"

definition decimal_str :: "decimal \<Rightarrow> string" where
  \<comment> \<open>\<open>str(d)\<close>: the scientific string of the decimal arithmetic specification\<close>
  "decimal_str d =
     (let digits = str_nat (dint d);
          leftdigits = dexp d + len digits;
          dotplace = (if dexp d \<le> 0 \<and> leftdigits > -6 then leftdigits else 1);
          intpart = (if dotplace \<le> 0 then ''0''
                     else if dotplace \<ge> len digits
                       then digits @ replicate (nat (dotplace - len digits)) CHR ''0''
                     else take (nat dotplace) digits);
          fracpart = (if dotplace \<le> 0 then ''.'' @ replicate (nat (- dotplace)) CHR ''0'' @ digits
                      else if dotplace \<ge> len digits then []
                      else ''.'' @ drop (nat dotplace) digits);
          exp = (if leftdigits = dotplace then []
                 else ''E'' @ (if leftdigits - dotplace \<ge> 0 then ''+'' else [])
                      @ str_int (leftdigits - dotplace))
      in (if dsign d then ''-'' else []) @ intpart @ fracpart @ exp)"

definition decimal_value :: "decimal \<Rightarrow> rat" where
  \<comment> \<open>the number a decimal stands for\<close>
  "decimal_value d =
     (if dsign d then -1 else 1) * of_nat (dint d)
       * (if dexp d \<ge> 0 then 10 ^ nat (dexp d) else 1 / 10 ^ nat (- dexp d))"

section \<open>Scalar decoders\<close>

datatype scalar =
    PyNone
  | PyBool bool
  | PyInt int
  | PyStr pystr
  | PyFloat bytes
  | PyDecimal decimal

definition get_boolean :: "bytes \<Rightarrow> int \<Rightarrow> error + bool" where
  "get_boolean value pos =
     (case check_index pos (len value) of Inl e \<Rightarrow> Inl e | Inr _ \<Rightarrow>
       (case get_type_info value pos of Inl e \<Rightarrow> Inl e | Inr (basic_type, type_info) \<Rightarrow>
          if basic_type \<noteq> PRIMITIVE \<or> (type_info \<noteq> TRUE \<and> type_info \<noteq> FALSE)
          then Inl (UnexpectedType ''bool'')
          else Inr (type_info = TRUE)))"

definition get_long :: "bytes \<Rightarrow> int \<Rightarrow> error + int" where
  "get_long value pos =
     (case check_index pos (len value) of Inl e \<Rightarrow> Inl e | Inr _ \<Rightarrow>
       (case get_type_info value pos of Inl e \<Rightarrow> Inl e | Inr (basic_type, type_info) \<Rightarrow>
          if basic_type \<noteq> PRIMITIVE then Inl (UnexpectedType ''int'')
          else if type_info = INT1 then read_long value (pos + 1) 1 True
          else if type_info = INT2 then read_long value (pos + 1) 2 True
          else if type_info = INT4 then read_long value (pos + 1) 4 True
          else if type_info = INT8 then read_long value (pos + 1) 8 True
          else Inl (UnexpectedType ''int'')))"

definition get_string :: "bytes \<Rightarrow> int \<Rightarrow> error + pystr" where
  "get_string value pos =
     (case check_index pos (len value) of Inl e \<Rightarrow> Inl e | Inr _ \<Rightarrow>
       (case get_type_info value pos of Inl e \<Rightarrow> Inl e | Inr (basic_type, type_info) \<Rightarrow>
          if basic_type = SHORT_STR \<or> (basic_type = PRIMITIVE \<and> type_info = LONG_STR) then
            (case (if basic_type = SHORT_STR then Inr (pos + 1, type_info)
                   else (case read_long value (pos + 1) U32_SIZE False of
                           Inl e \<Rightarrow> Inl e
                         | Inr n \<Rightarrow> Inr (pos + 1 + U32_SIZE, n)))
             of Inl e \<Rightarrow> Inl e
              | Inr (start, str_length) \<Rightarrow>
                  (case check_index (start + str_length - 1) (len value) of
                     Inl e \<Rightarrow> Inl e
                   | Inr _ \<Rightarrow> utf8_decode (py_slice value start (start + str_length))))
          else Inl (UnexpectedType ''str'')))"

definition struct_unpack_d :: "bytes \<Rightarrow> error + bytes" where
  \<comment> \<open>\<open>struct.unpack("d", bs)[0]\<close>: a float, kept as the eight bytes that encode it;
      \<open>struct.error\<close> unless the buffer has exactly eight bytes\<close>
  "struct_unpack_d bs = (if length bs = 8 then Inr bs else Inl StructError)"

definition get_double :: "bytes \<Rightarrow> int \<Rightarrow> error + bytes" where
  "get_double value pos =
     (case check_index pos (len value) of Inl e \<Rightarrow> Inl e | Inr _ \<Rightarrow>
       (case get_type_info value pos of Inl e \<Rightarrow> Inl e | Inr (basic_type, type_info) \<Rightarrow>
          if basic_type \<noteq> PRIMITIVE \<or> type_info \<noteq> DOUBLE then Inl (UnexpectedType ''float'')
          else struct_unpack_d (py_slice value (pos + 1) (pos + 9))))"

definition get_decimal :: "bytes \<Rightarrow> int \<Rightarrow> error + decimal" where
  \<comment> \<open>The two \<open>raise\<close> statements evaluate \<open>str(Decimal)\<close>, and \<open>Decimal\<close> is not a name
      of the module: they raise \<open>NameError\<close>.\<close>
  "get_decimal value pos =
     (case check_index pos (len value) of Inl e \<Rightarrow> Inl e | Inr _ \<Rightarrow>
       (case get_type_info value pos of Inl e \<Rightarrow> Inl e | Inr (basic_type, type_info) \<Rightarrow>
          if basic_type \<noteq> PRIMITIVE then Inl NameError
          else
            (case py_index value (pos + 1) of Inl e \<Rightarrow> Inl e | Inr scale_byte \<Rightarrow>
              (case (if type_info = DECIMAL4 then read_long value (pos + 2) 4 True
                     else if type_info = DECIMAL8 then read_long value (pos + 2) 8 True
                     else if type_info = DECIMAL16 then
                       (case check_index (pos + 17) (len value) of
                          Inl e \<Rightarrow> Inl e
                        | Inr _ \<Rightarrow> Inr (from_bytes (py_slice value (pos + 2) (pos + 18)) True))
                     else Inl NameError)
               of Inl e \<Rightarrow> Inl e
                | Inr unscaled \<Rightarrow>
                    Inr (decimal_mul (decimal_of_int unscaled)
                           (decimal_ten_pow_neg (uint scale_byte)))))))"

section \<open>The logical kind of a value\<close>

datatype py_type = TNone | TBool | TInt | TFloat | TDecimal | TStr | TDict | TArray

definition get_type :: "bytes \<Rightarrow> int \<Rightarrow> error + py_type" where
  "get_type value pos =
     (case check_index pos (len value) of Inl e \<Rightarrow> Inl e | Inr _ \<Rightarrow>
       (case get_type_info value pos of Inl e \<Rightarrow> Inl e | Inr (basic_type, type_info) \<Rightarrow>
          if basic_type = SHORT_STR then Inr TStr
          else if basic_type = OBJECT then Inr TDict
          else if basic_type = ARRAY then Inr TArray
          else if type_info = NULL then Inr TNone
          else if type_info = TRUE \<or> type_info = FALSE then Inr TBool
          else if type_info = INT1 \<or> type_info = INT2 \<or> type_info = INT4 \<or> type_info = INT8
            then Inr TInt
          else if type_info = DOUBLE then Inr TFloat
          else if type_info = DECIMAL4 \<or> type_info = DECIMAL8 \<or> type_info = DECIMAL16
            then Inr TDecimal
          else if type_info = LONG_STR then Inr TStr
          else Inl MalformedVariant))"

definition get_scalar :: "py_type \<Rightarrow> bytes \<Rightarrow> bytes \<Rightarrow> int \<Rightarrow> error + scalar" where
  "get_scalar variant_type value metadata pos =
     (if variant_type = TNone then Inr PyNone
      else if variant_type = TBool then map_sum id PyBool (get_boolean value pos)
      else if variant_type = TInt then map_sum id PyInt (get_long value pos)
      else if variant_type = TStr then map_sum id PyStr (get_string value pos)
      else if variant_type = TFloat then map_sum id PyFloat (get_double value pos)
      else if variant_type = TDecimal then map_sum id PyDecimal (get_decimal value pos)
      else Inl MalformedVariant)"

section \<open>The metadata dictionary\<close>

definition get_metadata_key :: "bytes \<Rightarrow> int \<Rightarrow> error + pystr" where
  "get_metadata_key metadata id' =
     (case check_index 0 (len metadata) of Inl e \<Rightarrow> Inl e | Inr _ \<Rightarrow>
       (case py_index metadata 0 of Inl e \<Rightarrow> Inl e | Inr header \<Rightarrow>
          let offset_size = (drop_bit 6 (uint header) AND 0x3) + 1 in
          (case read_long metadata 1 offset_size False of Inl e \<Rightarrow> Inl e | Inr dict_size \<Rightarrow>
             if id' \<ge> dict_size then Inl MalformedVariant
             else
               let string_start = 1 + (dict_size + 2) * offset_size in
               (case read_long metadata (1 + (id' + 1) * offset_size) offset_size False of
                  Inl e \<Rightarrow> Inl e
                | Inr offset \<Rightarrow>
                    (case read_long metadata (1 + (id' + 2) * offset_size) offset_size False of
                       Inl e \<Rightarrow> Inl e
                     | Inr next_offset \<Rightarrow>
                         if offset > next_offset then Inl MalformedVariant
                         else
                           (case check_index (string_start + next_offset - 1) (len metadata) of
                              Inl e \<Rightarrow> Inl e
                            | Inr _ \<Rightarrow>
                                utf8_decode (py_slice metadata (string_start + offset)
                                               (string_start + next_offset))))))))"

section \<open>Container decoders\<close>

text \<open>
  A list comprehension or a \<open>for\<close> loop that appends: the results in order, or the first
  exception raised, which ends the loop.
\<close>

primrec traverse :: "('a \<Rightarrow> error + 'b) \<Rightarrow> 'a list \<Rightarrow> error + 'b list" where
  "traverse f [] = Inr []"
| "traverse f (x # xs) =
     (case f x of
        Inl e \<Rightarrow> Inl e
      | Inr y \<Rightarrow> (case traverse f xs of Inl e \<Rightarrow> Inl e | Inr ys \<Rightarrow> Inr (y # ys)))"

definition py_range :: "int \<Rightarrow> int list" where
  \<comment> \<open>\<open>range(n)\<close>\<close>
  "py_range n = map int [0 ..< nat n]"

text \<open>
  \<open>object_fields\<close> is \<open>_handle_object\<close> up to the list \<open>key_value_pos_list\<close> that it
  builds; \<open>handle_object\<close> then calls \<open>func\<close> on that list. The same for arrays.
  The loop's \<open>value_pos\<close> and \<open>element_pos\<close> are \<open>data_start + offset\<close>, written in
  place.
\<close>

definition object_fields :: "bytes \<Rightarrow> bytes \<Rightarrow> int \<Rightarrow> error + (pystr \<times> int) list" where
  "object_fields value metadata pos =
     (case check_index pos (len value) of Inl e \<Rightarrow> Inl e | Inr _ \<Rightarrow>
       (case get_type_info value pos of Inl e \<Rightarrow> Inl e | Inr (basic_type, type_info) \<Rightarrow>
          if basic_type \<noteq> OBJECT then Inl MalformedVariant
          else
            let large_size = (drop_bit 4 type_info AND 0x1 \<noteq> 0);
                size_bytes = (if large_size then U32_SIZE else 1)
            in
            (case read_long value (pos + 1) size_bytes False of Inl e \<Rightarrow> Inl e | Inr num_fields \<Rightarrow>
               let id_size = (drop_bit 2 type_info AND 0x3) + 1;
                   offset_size = (type_info AND 0x3) + 1;
                   id_start = pos + 1 + size_bytes;
                   offset_start = id_start + num_fields * id_size;
                   data_start = offset_start + (num_fields + 1) * offset_size
               in
               traverse
                 (\<lambda>i. case read_long value (id_start + id_size * i) id_size False of
                        Inl e \<Rightarrow> Inl e
                      | Inr id' \<Rightarrow>
                          (case read_long value (offset_start + offset_size * i) offset_size False of
                             Inl e \<Rightarrow> Inl e
                           | Inr offset \<Rightarrow>
                               (case get_metadata_key metadata id' of
                                  Inl e \<Rightarrow> Inl e
                                | Inr key \<Rightarrow> Inr (key, data_start + offset))))
                 (py_range num_fields))))"

definition handle_object ::
  "bytes \<Rightarrow> bytes \<Rightarrow> int \<Rightarrow> ((pystr \<times> int) list \<Rightarrow> error + 'r) \<Rightarrow> error + 'r" where
  "handle_object value metadata pos func =
     (case object_fields value metadata pos of
        Inl e \<Rightarrow> Inl e
      | Inr key_value_pos_list \<Rightarrow> func key_value_pos_list)"

definition array_elements :: "bytes \<Rightarrow> int \<Rightarrow> error + int list" where
  "array_elements value pos =
     (case check_index pos (len value) of Inl e \<Rightarrow> Inl e | Inr _ \<Rightarrow>
       (case get_type_info value pos of Inl e \<Rightarrow> Inl e | Inr (basic_type, type_info) \<Rightarrow>
          if basic_type \<noteq> ARRAY then Inl MalformedVariant
          else
            let large_size = (drop_bit 2 type_info AND 0x1 \<noteq> 0);
                size_bytes = (if large_size then U32_SIZE else 1)
            in
            (case read_long value (pos + 1) size_bytes False of Inl e \<Rightarrow> Inl e | Inr num_fields \<Rightarrow>
               let offset_size = (type_info AND 0x3) + 1;
                   offset_start = pos + 1 + size_bytes;
                   data_start = offset_start + (num_fields + 1) * offset_size
               in
               traverse
                 (\<lambda>i. case read_long value (offset_start + offset_size * i) offset_size False of
                        Inl e \<Rightarrow> Inl e
                      | Inr offset \<Rightarrow> Inr (data_start + offset))
                 (py_range num_fields))))"

definition handle_array :: "bytes \<Rightarrow> int \<Rightarrow> (int list \<Rightarrow> error + 'r) \<Rightarrow> error + 'r" where
  "handle_array value pos func =
     (case array_elements value pos of
        Inl e \<Rightarrow> Inl e
      | Inr value_pos_list \<Rightarrow> func value_pos_list)"

section \<open>Native values and the two materializers\<close>

datatype pyval =
    Scalar scalar
  | PyDict "(pystr \<times> pyval) list"
  | PyList "pyval list"

text \<open>
  A Python \<open>dict\<close> keeps its keys in insertion order: the association list of its items,
  with distinct keys. \<open>dict_set d k v\<close> is \<open>d[k] = v\<close>: a key already there keeps its
  place and takes the new value. \<open>py_dict\<close> is \<open>dict(items)\<close>.
\<close>

fun dict_set :: "('k \<times> 'v) list \<Rightarrow> 'k \<Rightarrow> 'v \<Rightarrow> ('k \<times> 'v) list" where
  "dict_set [] k v = [(k, v)]"
| "dict_set ((k', v') # d) k v = (if k' = k then (k', v) # d else (k', v') # dict_set d k v)"

definition py_dict :: "('k \<times> 'v) list \<Rightarrow> ('k \<times> 'v) list" where
  "py_dict items = foldl (\<lambda>d (k, v). dict_set d k v) [] items"

definition scalar_json :: "(bytes \<Rightarrow> string) \<Rightarrow> scalar \<Rightarrow> string" where
  \<comment> \<open>The last lines of \<open>_to_json\<close>. \<open>float_str\<close> is \<open>str\<close> of a float, given by the
      eight bytes that encode it.\<close>
  "scalar_json float_str v =
     (case v of
        PyNone \<Rightarrow> ''null''
      | PyBool b \<Rightarrow> (if b then ''true'' else ''false'')
      | PyStr s \<Rightarrow> json_dumps s
      | PyInt i \<Rightarrow> str_int i
      | PyFloat bs \<Rightarrow> float_str bs
      | PyDecimal d \<Rightarrow> decimal_str d)"

lemma traverse_cong [fundef_cong]:
  "xs = ys \<Longrightarrow> (\<And>x. x \<in> set ys \<Longrightarrow> f x = g x) \<Longrightarrow> traverse f xs = traverse g ys"
  by (induction ys arbitrary: xs) (auto split: sum.splits)

lemma handle_object_cong [fundef_cong]:
  "value = value' \<Longrightarrow> metadata = metadata' \<Longrightarrow> pos = pos'
   \<Longrightarrow> (\<And>kvs. object_fields value' metadata' pos' = Inr kvs \<Longrightarrow> f kvs = g kvs)
   \<Longrightarrow> handle_object value metadata pos f = handle_object value' metadata' pos' g"
  by (auto simp: handle_object_def split: sum.splits)

lemma handle_array_cong [fundef_cong]:
  "value = value' \<Longrightarrow> pos = pos'
   \<Longrightarrow> (\<And>ps. array_elements value' pos' = Inr ps \<Longrightarrow> f ps = g ps)
   \<Longrightarrow> handle_array value pos f = handle_array value' pos' g"
  by (auto simp: handle_array_def split: sum.splits)

subsection \<open>Child positions lie after their container\<close>

lemma from_bytes_unsigned_nonneg: "0 \<le> from_bytes_unsigned bs"
  by (induction bs) auto

lemma read_long_unsigned_nonneg:
  "read_long data pos n False = Inr v \<Longrightarrow> 0 \<le> v"
  by (auto simp: read_long_def from_bytes_def from_bytes_unsigned_nonneg split: sum.splits)

lemma check_index_Inr: "check_index pos n = Inr u \<longleftrightarrow> 0 \<le> pos \<and> pos < n"
  by (auto simp: check_index_def)

lemma get_type_Inr_bounds: "get_type value pos = Inr t \<Longrightarrow> 0 \<le> pos \<and> pos < len value"
  by (auto simp: get_type_def check_index_Inr split: sum.splits)

lemma traverse_Inr_set:
  "traverse f xs = Inr ys \<Longrightarrow> y \<in> set ys \<Longrightarrow> \<exists>x \<in> set xs. f x = Inr y"
  by (induction xs arbitrary: ys) (auto split: sum.splits)

lemma array_elements_InrE:
  assumes "array_elements value pos = Inr ps"
  obtains type_info size_bytes num_fields offset_size data_start where
    "get_type_info value pos = Inr (ARRAY, type_info)"
    "size_bytes = (if drop_bit 2 type_info AND 0x1 \<noteq> 0 then U32_SIZE else 1)"
    "read_long value (pos + 1) size_bytes False = Inr num_fields"
    "offset_size = (type_info AND 0x3) + 1"
    "data_start = pos + 1 + size_bytes + (num_fields + 1) * offset_size"
    "traverse
       (\<lambda>i. case read_long value (pos + 1 + size_bytes + offset_size * i) offset_size False of
              Inl e \<Rightarrow> Inl e
            | Inr offset \<Rightarrow> Inr (data_start + offset))
       (py_range num_fields) = Inr ps"
  using assms
  by (auto simp: array_elements_def Let_def split: sum.splits if_splits)

lemma layout_after_pos:
  fixes pos :: int
  assumes "1 \<le> size_bytes" "0 \<le> num_fields" "1 \<le> offset_size" "0 \<le> extra" "0 \<le> offset"
  shows "pos < pos + 1 + size_bytes + extra + (num_fields + 1) * offset_size + offset"
proof -
  have "0 \<le> (num_fields + 1) * offset_size"
    using assms by (intro mult_nonneg_nonneg) auto
  with assms show ?thesis by linarith
qed

lemma array_elements_child_pos:
  assumes "array_elements value pos = Inr ps" "p \<in> set ps"
  shows "pos < p"
proof -
  from assms(1) obtain type_info size_bytes num_fields offset_size data_start where
    sb: "size_bytes = (if drop_bit 2 type_info AND 0x1 \<noteq> 0 then U32_SIZE else 1)"
    and nf: "read_long value (pos + 1) size_bytes False = Inr num_fields"
    and os: "offset_size = (type_info AND 0x3) + 1"
    and ds: "data_start = pos + 1 + size_bytes + (num_fields + 1) * offset_size"
    and tr: "traverse
       (\<lambda>i. case read_long value (pos + 1 + size_bytes + offset_size * i) offset_size False of
              Inl e \<Rightarrow> Inl e
            | Inr offset \<Rightarrow> Inr (data_start + offset))
       (py_range num_fields) = Inr ps"
    by (rule array_elements_InrE)
  from traverse_Inr_set [OF tr assms(2)] obtain i where
    fi: "(case read_long value (pos + 1 + size_bytes + offset_size * i) offset_size False of
            Inl e \<Rightarrow> Inl e
          | Inr offset \<Rightarrow> Inr (data_start + offset)) = Inr p"
    by blast
  then obtain offset where
    off: "read_long value (pos + 1 + size_bytes + offset_size * i) offset_size False = Inr offset"
    and p: "p = data_start + offset"
    by (cases "read_long value (pos + 1 + size_bytes + offset_size * i) offset_size False") auto
  have "1 \<le> size_bytes" by (simp add: sb U32_SIZE_def)
  moreover have "0 \<le> num_fields" using nf by (rule read_long_unsigned_nonneg)
  moreover have "1 \<le> offset_size" by (simp add: os)
  moreover have "0 \<le> offset" using off by (rule read_long_unsigned_nonneg)
  ultimately show ?thesis
    using layout_after_pos [of size_bytes num_fields offset_size 0 offset pos] by (simp add: p ds)
qed

lemma object_fields_InrE:
  assumes "object_fields value metadata pos = Inr kvs"
  obtains type_info size_bytes num_fields id_size offset_size id_start offset_start data_start where
    "get_type_info value pos = Inr (OBJECT, type_info)"
    "size_bytes = (if drop_bit 4 type_info AND 0x1 \<noteq> 0 then U32_SIZE else 1)"
    "read_long value (pos + 1) size_bytes False = Inr num_fields"
    "id_size = (drop_bit 2 type_info AND 0x3) + 1"
    "offset_size = (type_info AND 0x3) + 1"
    "id_start = pos + 1 + size_bytes"
    "offset_start = id_start + num_fields * id_size"
    "data_start = offset_start + (num_fields + 1) * offset_size"
    "traverse
       (\<lambda>i. case read_long value (id_start + id_size * i) id_size False of
              Inl e \<Rightarrow> Inl e
            | Inr id' \<Rightarrow>
                (case read_long value (offset_start + offset_size * i) offset_size False of
                   Inl e \<Rightarrow> Inl e
                 | Inr offset \<Rightarrow>
                     (case get_metadata_key metadata id' of
                        Inl e \<Rightarrow> Inl e
                      | Inr key \<Rightarrow> Inr (key, data_start + offset))))
       (py_range num_fields) = Inr kvs"
  using assms
  by (auto simp: object_fields_def Let_def split: sum.splits if_splits)

lemma object_fields_child_pos:
  assumes "object_fields value metadata pos = Inr kvs" "(k, p) \<in> set kvs"
  shows "pos < p"
proof -
  from assms(1) obtain type_info size_bytes num_fields id_size offset_size id_start offset_start
      data_start where
    sb: "size_bytes = (if drop_bit 4 type_info AND 0x1 \<noteq> 0 then U32_SIZE else 1)"
    and nf: "read_long value (pos + 1) size_bytes False = Inr num_fields"
    and ids: "id_size = (drop_bit 2 type_info AND 0x3) + 1"
    and os: "offset_size = (type_info AND 0x3) + 1"
    and ist: "id_start = pos + 1 + size_bytes"
    and ost: "offset_start = id_start + num_fields * id_size"
    and ds: "data_start = offset_start + (num_fields + 1) * offset_size"
    and tr: "traverse
       (\<lambda>i. case read_long value (id_start + id_size * i) id_size False of
              Inl e \<Rightarrow> Inl e
            | Inr id' \<Rightarrow>
                (case read_long value (offset_start + offset_size * i) offset_size False of
                   Inl e \<Rightarrow> Inl e
                 | Inr offset \<Rightarrow>
                     (case get_metadata_key metadata id' of
                        Inl e \<Rightarrow> Inl e
                      | Inr key \<Rightarrow> Inr (key, data_start + offset))))
       (py_range num_fields) = Inr kvs"
    by (rule object_fields_InrE)
  from traverse_Inr_set [OF tr assms(2)] obtain i where
    fi: "(case read_long value (id_start + id_size * i) id_size False of
              Inl e \<Rightarrow> Inl e
            | Inr id' \<Rightarrow>
                (case read_long value (offset_start + offset_size * i) offset_size False of
                   Inl e \<Rightarrow> Inl e
                 | Inr offset \<Rightarrow>
                     (case get_metadata_key metadata id' of
                        Inl e \<Rightarrow> Inl e
                      | Inr key \<Rightarrow> Inr (key, data_start + offset)))) = Inr (k, p)"
    by blast
  then obtain offset where
    off: "read_long value (offset_start + offset_size * i) offset_size False = Inr offset"
    and p: "p = data_start + offset"
    by (cases "read_long value (id_start + id_size * i) id_size False";
        cases "read_long value (offset_start + offset_size * i) offset_size False")
       (auto split: sum.split_asm)
  have "1 \<le> size_bytes" by (simp add: sb U32_SIZE_def)
  moreover have nf0: "0 \<le> num_fields" using nf by (rule read_long_unsigned_nonneg)
  moreover have "1 \<le> offset_size" by (simp add: os)
  moreover have "0 \<le> offset" using off by (rule read_long_unsigned_nonneg)
  moreover have "0 \<le> num_fields * id_size"
    using nf0 by (intro mult_nonneg_nonneg) (auto simp: ids)
  ultimately show ?thesis
    using layout_after_pos [of size_bytes num_fields offset_size "num_fields * id_size" offset pos]
    by (simp add: p ds ost ist)
qed

subsection \<open>The JSON materializer\<close>

function to_json_pos :: "(bytes \<Rightarrow> string) \<Rightarrow> bytes \<Rightarrow> bytes \<Rightarrow> int \<Rightarrow> error + string" where
  "to_json_pos float_str value metadata pos =
     (case get_type value pos of Inl e \<Rightarrow> Inl e | Inr variant_type \<Rightarrow>
        if variant_type = TDict then
          handle_object value metadata pos
            (\<lambda>key_value_pos_list.
               case traverse
                      (\<lambda>(key, value_pos).
                         case to_json_pos float_str value metadata value_pos of
                           Inl e \<Rightarrow> Inl e
                         | Inr s \<Rightarrow> Inr (json_dumps key @ '':'' @ s))
                      key_value_pos_list
               of Inl e \<Rightarrow> Inl e
                | Inr key_value_list \<Rightarrow> Inr (''{'' @ join '','' key_value_list @ ''}''))
        else if variant_type = TArray then
          handle_array value pos
            (\<lambda>value_pos_list.
               case traverse (\<lambda>value_pos. to_json_pos float_str value metadata value_pos)
                      value_pos_list
               of Inl e \<Rightarrow> Inl e
                | Inr value_list \<Rightarrow> Inr (''['' @ join '','' value_list @ '']''))
        else
          (case get_scalar variant_type value metadata pos of
             Inl e \<Rightarrow> Inl e
           | Inr v \<Rightarrow> Inr (scalar_json float_str v)))"
  by pat_completeness auto

termination to_json_pos
proof (relation "measure (\<lambda>(float_str, value, metadata, pos). nat (len value - pos))")
  show "wf (measure (\<lambda>(float_str, value, metadata, pos). nat (len value - pos)))" by simp
next
  fix float_str :: "bytes \<Rightarrow> string" and "value" metadata :: bytes and pos :: int
    and variant_type kvs kp k p
  assume "get_type value pos = Inr variant_type"
    "object_fields value metadata pos = Inr kvs" "kp \<in> set kvs" "(k, p) = kp"
  then show "((float_str, value, metadata, p), (float_str, value, metadata, pos))
      \<in> measure (\<lambda>(float_str, value, metadata, pos). nat (len value - pos))"
    using object_fields_child_pos [of "value" metadata pos kvs k p] get_type_Inr_bounds [of "value" pos]
    by auto
next
  fix float_str :: "bytes \<Rightarrow> string" and "value" metadata :: bytes and pos :: int
    and variant_type ps p
  assume "get_type value pos = Inr variant_type"
    "array_elements value pos = Inr ps" "p \<in> set ps"
  then show "((float_str, value, metadata, p), (float_str, value, metadata, pos))
      \<in> measure (\<lambda>(float_str, value, metadata, pos). nat (len value - pos))"
    using array_elements_child_pos [of "value" pos ps p] get_type_Inr_bounds [of "value" pos]
    by auto
qed

definition to_json :: "(bytes \<Rightarrow> string) \<Rightarrow> bytes \<Rightarrow> bytes \<Rightarrow> error + string" where
  "to_json float_str value metadata = to_json_pos float_str value metadata 0"

subsection \<open>The native materializer\<close>

function to_python_pos :: "bytes \<Rightarrow> bytes \<Rightarrow> int \<Rightarrow> error + pyval" where
  "to_python_pos value metadata pos =
     (case get_type value pos of Inl e \<Rightarrow> Inl e | Inr variant_type \<Rightarrow>
        if variant_type = TDict then
          handle_object value metadata pos
            (\<lambda>key_value_pos_list.
               case traverse
                      (\<lambda>(key, value_pos).
                         case to_python_pos value metadata value_pos of
                           Inl e \<Rightarrow> Inl e
                         | Inr v \<Rightarrow> Inr (key, v))
                      key_value_pos_list
               of Inl e \<Rightarrow> Inl e
                | Inr key_value_list \<Rightarrow> Inr (PyDict (py_dict key_value_list)))
        else if variant_type = TArray then
          handle_array value pos
            (\<lambda>value_pos_list.
               case traverse (\<lambda>value_pos. to_python_pos value metadata value_pos) value_pos_list
               of Inl e \<Rightarrow> Inl e
                | Inr value_list \<Rightarrow> Inr (PyList value_list))
        else
          (case get_scalar variant_type value metadata pos of
             Inl e \<Rightarrow> Inl e
           | Inr v \<Rightarrow> Inr (Scalar v)))"
  by pat_completeness auto

termination to_python_pos
proof (relation "measure (\<lambda>(value, metadata, pos). nat (len value - pos))")
  show "wf (measure (\<lambda>(value, metadata, pos). nat (len value - pos)))" by simp
next
  fix "value" metadata :: bytes and pos :: int and variant_type kvs kp k p
  assume "get_type value pos = Inr variant_type"
    "object_fields value metadata pos = Inr kvs" "kp \<in> set kvs" "(k, p) = kp"
  then show "((value, metadata, p), (value, metadata, pos))
      \<in> measure (\<lambda>(value, metadata, pos). nat (len value - pos))"
    using object_fields_child_pos [of "value" metadata pos kvs k p] get_type_Inr_bounds [of "value" pos]
    by auto
next
  fix "value" metadata :: bytes and pos :: int and variant_type ps p
  assume "get_type value pos = Inr variant_type"
    "array_elements value pos = Inr ps" "p \<in> set ps"
  then show "((value, metadata, p), (value, metadata, pos))
      \<in> measure (\<lambda>(value, metadata, pos). nat (len value - pos))"
    using array_elements_child_pos [of "value" pos ps p] get_type_Inr_bounds [of "value" pos]
    by auto
qed

definition to_python :: "bytes \<Rightarrow> bytes \<Rightarrow> error + pyval" where
  "to_python value metadata = to_python_pos value metadata 0"

section \<open>The failures of the two materializers\<close>

lemma check_index_Inl: "check_index pos n = Inl e \<Longrightarrow> e = MalformedVariant"
  by (auto simp: check_index_def split: if_splits)

lemma read_long_Inl: "read_long d p n s = Inl e \<Longrightarrow> e = MalformedVariant"
  by (auto simp: read_long_def split: sum.splits dest: check_index_Inl)

lemma utf8_decode_Inl: "utf8_decode bs = Inl e \<Longrightarrow> e = UnicodeDecodeError"
  by (induction bs arbitrary: e rule: utf8_decode.induct) (auto split: option.splits sum.splits)

lemma map_sum_id_Inl [simp]: "map_sum id f x = Inl e \<longleftrightarrow> x = Inl e"
  by (cases x) auto

lemma traverse_Inl: "traverse f xs = Inl e \<Longrightarrow> \<exists>x\<in>set xs. f x = Inl e"
  by (induction xs) (auto split: sum.splits)

lemma basic_type_range:
  assumes "get_type_info value pos = Inr (basic_type, type_info)"
  shows "basic_type = 0 \<or> basic_type = 1 \<or> basic_type = 2 \<or> basic_type = 3"
proof -
  from assms have "\<exists>b :: byte. basic_type = uint b AND 3"
    by (auto simp: get_type_info_def BASIC_TYPE_MASK_def split: sum.splits)
  then obtain b :: byte where b: "basic_type = uint b AND 3" ..
  have "0 \<le> uint b AND 3" by simp
  moreover have "uint b AND 3 \<le> 3" by (rule AND_upper2) simp
  ultimately have "0 \<le> basic_type" "basic_type \<le> 3" unfolding b by blast+
  then show ?thesis by arith
qed

lemma get_type_info_checked:
  "check_index pos (len value) = Inr u \<Longrightarrow> \<exists>bt ti. get_type_info value pos = Inr (bt, ti)"
  by (auto simp: check_index_def get_type_info_def py_index_def Let_def split: if_splits)

lemma get_scalar_Inl:
  assumes "get_type value pos = Inr t" "get_scalar t value metadata pos = Inl e"
  shows "e = MalformedVariant \<or> e = IndexError \<or> e = StructError \<or> e = UnicodeDecodeError"
proof -
  from assms(1) obtain bt ti where ci: "check_index pos (len value) = Inr ()"
    and ti: "get_type_info value pos = Inr (bt, ti)"
    by (auto simp: get_type_def split: sum.splits)
  note bt = basic_type_range [OF ti]
  show ?thesis
  proof (cases t)
    case TNone
    with assms(2) show ?thesis by (simp add: get_scalar_def)
  next
    case TBool
    with assms ci ti bt show ?thesis
      by (auto simp: get_scalar_def get_type_def get_boolean_def variant_consts split: if_splits)
  next
    case TInt
    with assms ci ti bt show ?thesis
      by (auto simp: get_scalar_def get_type_def get_long_def variant_consts
          split: if_splits dest: read_long_Inl)
  next
    case TFloat
    with assms ci ti bt show ?thesis
      by (auto simp: get_scalar_def get_type_def get_double_def struct_unpack_d_def variant_consts
          split: if_splits)
  next
    case TDecimal
    with assms ci ti bt show ?thesis
      by (auto simp: get_scalar_def get_type_def get_decimal_def variant_consts py_index_def Let_def
          split: if_splits sum.splits dest: read_long_Inl check_index_Inl)
  next
    case TStr
    with assms ci ti bt show ?thesis
      by (auto simp: get_scalar_def get_type_def get_string_def variant_consts
          split: if_splits sum.splits dest: read_long_Inl check_index_Inl utf8_decode_Inl)
  next
    case TDict
    with assms(2) show ?thesis by (simp add: get_scalar_def)
  next
    case TArray
    with assms(2) show ?thesis by (simp add: get_scalar_def)
  qed
qed


lemma get_metadata_key_Inl:
  "get_metadata_key metadata i = Inl e \<Longrightarrow> e = MalformedVariant \<or> e = UnicodeDecodeError"
  by (auto simp: get_metadata_key_def py_index_def check_index_def Let_def len_def
      split: sum.splits if_splits dest!: read_long_Inl utf8_decode_Inl)

lemma array_elements_Inl: "array_elements value pos = Inl e \<Longrightarrow> e = MalformedVariant"
  by (auto simp: array_elements_def Let_def get_type_info_def py_index_def check_index_def
      split: sum.splits if_splits dest!: traverse_Inl read_long_Inl)

lemma object_fields_Inl:
  "object_fields value metadata pos = Inl e \<Longrightarrow> e = MalformedVariant \<or> e = UnicodeDecodeError"
  by (auto simp: object_fields_def Let_def get_type_info_def py_index_def check_index_def
      split: sum.splits if_splits dest!: traverse_Inl read_long_Inl get_metadata_key_Inl)

lemma get_type_Inl: "get_type value pos = Inl e \<Longrightarrow> e = MalformedVariant"
  by (auto simp: get_type_def get_type_info_def py_index_def check_index_def Let_def
      split: sum.splits if_splits)

lemma to_json_pos_Inl:
  "to_json_pos float_str value metadata pos = Inl e
   \<Longrightarrow> e = MalformedVariant \<or> e = IndexError \<or> e = StructError \<or> e = UnicodeDecodeError"
proof (induction float_str "value" metadata pos arbitrary: e rule: to_json_pos.induct)
  case (1 float_str "value" metadata pos)
  show ?case
  proof (cases "get_type value pos")
    case (Inl e')
    with "1.prems" show ?thesis
      by (subst (asm) to_json_pos.simps) (auto dest: get_type_Inl)
  next
    case (Inr t)
    show ?thesis
    proof (cases "t = TDict")
      case True
      show ?thesis
      proof (cases "object_fields value metadata pos")
        case (Inl e')
        with "1.prems" Inr True show ?thesis
          by (subst (asm) to_json_pos.simps) (auto simp: handle_object_def dest: object_fields_Inl)
      next
        case kvs: (Inr kvs)
        from "1.prems" Inr True kvs obtain k p e' where
          "(k, p) \<in> set kvs" "to_json_pos float_str value metadata p = Inl e"
          by (subst (asm) to_json_pos.simps)
             (auto simp: handle_object_def split: sum.splits dest!: traverse_Inl)
        with "1.IH"(1) [OF Inr True kvs] show ?thesis by blast
      qed
    next
      case False
      show ?thesis
      proof (cases "t = TArray")
        case True
        show ?thesis
        proof (cases "array_elements value pos")
          case (Inl e')
          with "1.prems" Inr True show ?thesis
            by (subst (asm) to_json_pos.simps) (auto simp: handle_array_def dest: array_elements_Inl)
        next
          case ps: (Inr ps)
          from "1.prems" Inr True ps obtain p where
            "p \<in> set ps" "to_json_pos float_str value metadata p = Inl e"
            by (subst (asm) to_json_pos.simps)
               (auto simp: handle_array_def split: sum.splits dest!: traverse_Inl)
          with "1.IH"(2) [OF Inr False True ps] show ?thesis by blast
        qed
      next
        case nA: False
        from "1.prems" Inr False nA have "get_scalar t value metadata pos = Inl e"
          by (subst (asm) to_json_pos.simps) (auto split: sum.splits)
        with Inr show ?thesis by (rule get_scalar_Inl)
      qed
    qed
  qed
qed

lemma to_python_pos_Inl:
  "to_python_pos value metadata pos = Inl e
   \<Longrightarrow> e = MalformedVariant \<or> e = IndexError \<or> e = StructError \<or> e = UnicodeDecodeError"
proof (induction "value" metadata pos arbitrary: e rule: to_python_pos.induct)
  case (1 "value" metadata pos)
  show ?case
  proof (cases "get_type value pos")
    case (Inl e')
    with "1.prems" show ?thesis
      by (subst (asm) to_python_pos.simps) (auto dest: get_type_Inl)
  next
    case (Inr t)
    show ?thesis
    proof (cases "t = TDict")
      case True
      show ?thesis
      proof (cases "object_fields value metadata pos")
        case (Inl e')
        with "1.prems" Inr True show ?thesis
          by (subst (asm) to_python_pos.simps) (auto simp: handle_object_def dest: object_fields_Inl)
      next
        case kvs: (Inr kvs)
        from "1.prems" Inr True kvs obtain k p e' where
          "(k, p) \<in> set kvs" "to_python_pos value metadata p = Inl e"
          by (subst (asm) to_python_pos.simps)
             (auto simp: handle_object_def split: sum.splits dest!: traverse_Inl)
        with "1.IH"(1) [OF Inr True kvs] show ?thesis by blast
      qed
    next
      case False
      show ?thesis
      proof (cases "t = TArray")
        case True
        show ?thesis
        proof (cases "array_elements value pos")
          case (Inl e')
          with "1.prems" Inr True show ?thesis
            by (subst (asm) to_python_pos.simps) (auto simp: handle_array_def dest: array_elements_Inl)
        next
          case ps: (Inr ps)
          from "1.prems" Inr True ps obtain p where
            "p \<in> set ps" "to_python_pos value metadata p = Inl e"
            by (subst (asm) to_python_pos.simps)
               (auto simp: handle_array_def split: sum.splits dest!: traverse_Inl)
          with "1.IH"(2) [OF Inr False True ps] show ?thesis by blast
        qed
      next
        case nA: False
        from "1.prems" Inr False nA have "get_scalar t value metadata pos = Inl e"
          by (subst (asm) to_python_pos.simps) (auto split: sum.splits)
        with Inr show ?thesis by (rule get_scalar_Inl)
      qed
    qed
  qed
qed

text \<open>
  Claim C7. The public materializers never raise the \<open>Unexpected Variant type\<close>
  exception: they call a scalar accessor only for the kind that \<open>_get_type\<close> resolved at
  the same position, and the accessor's own check of the header then passes. (The two
  \<open>raise\<close> statements of \<open>_get_decimal\<close>, which would raise \<open>NameError\<close>, are not reached
  either.)
\<close>

theorem materializers_never_raise_unexpected_type:
  "to_json float_str value metadata \<noteq> Inl (UnexpectedType t)
   \<and> to_python value metadata \<noteq> Inl (UnexpectedType t)
   \<and> to_json float_str value metadata \<noteq> Inl NameError
   \<and> to_python value metadata \<noteq> Inl NameError
   \<and> (get_type value pos = Inr variant_type
        \<longrightarrow> get_scalar variant_type value metadata pos \<noteq> Inl (UnexpectedType t))"
  using to_json_pos_Inl [of float_str "value" metadata 0]
    to_python_pos_Inl [of "value" metadata 0]
    get_scalar_Inl [of "value" pos variant_type metadata]
  by (auto simp: to_json_def to_python_def)

theorem materializers_never_raise_unexpected_type_witness:
  "to_json (\<lambda>_. []) [0x0C, 0xFB] [0x01, 0x00, 0x00] \<noteq> Inl (UnexpectedType ''int'')
   \<and> to_python [0x0C, 0xFB] [0x01, 0x00, 0x00] \<noteq> Inl (UnexpectedType ''int'')
   \<and> get_type [0x0C, 0xFB] 0 = Inr TInt
   \<and> get_scalar TInt [0x0C, 0xFB] [0x01, 0x00, 0x00] 0 \<noteq> Inl (UnexpectedType ''int'')"
proof -
  have t: "get_type [0x0C, 0xFB] 0 = Inr TInt" by code_simp
  from materializers_never_raise_unexpected_type
    [of "\<lambda>_. []" "[0x0C, 0xFB]" "[0x01, 0x00, 0x00]" "''int''" 0 TInt] t
  show ?thesis by simp
qed

section \<open>Termination of the materializers\<close>

text \<open>
  \<open>child_positions value metadata pos\<close> lists the positions at which \<open>_to_json\<close> and
  \<open>_to_python\<close> call themselves from position \<open>pos\<close>: the value positions of the fields of an
  object, the positions of the elements of an array, and none for a scalar or a position where
  \<open>_get_type\<close> or the container decoder fails.
\<close>

definition child_positions :: "bytes \<Rightarrow> bytes \<Rightarrow> int \<Rightarrow> int list" where
  "child_positions value metadata pos =
     (case get_type value pos of
        Inl e \<Rightarrow> []
      | Inr variant_type \<Rightarrow>
          if variant_type = TDict then
            (case object_fields value metadata pos of Inl e \<Rightarrow> [] | Inr kvs \<Rightarrow> map snd kvs)
          else if variant_type = TArray then
            (case array_elements value pos of Inl e \<Rightarrow> [] | Inr ps \<Rightarrow> ps)
          else [])"

lemma child_positions_after:
  assumes "q \<in> set (child_positions value metadata pos)"
  shows "0 \<le> pos \<and> pos < len value \<and> pos < q"
proof (cases "get_type value pos")
  case (Inl e)
  with assms show ?thesis by (simp add: child_positions_def)
next
  case (Inr t)
  note b = get_type_Inr_bounds [OF Inr]
  show ?thesis
  proof (cases "t = TDict")
    case True
    show ?thesis
    proof (cases "object_fields value metadata pos")
      case (Inl e)
      with assms Inr True show ?thesis by (simp add: child_positions_def)
    next
      case kvs: (Inr kvs)
      with assms Inr True have "q \<in> snd ` set kvs" by (simp add: child_positions_def)
      then obtain k where "(k, q) \<in> set kvs" by force
      with kvs have "pos < q" by (rule object_fields_child_pos)
      with b show ?thesis by simp
    qed
  next
    case False
    show ?thesis
    proof (cases "array_elements value pos")
      case (Inl e)
      with assms Inr False show ?thesis by (cases "t = TArray") (simp_all add: child_positions_def)
    next
      case ps: (Inr ps)
      with assms Inr False have "q \<in> set ps"
        by (cases "t = TArray") (simp_all add: child_positions_def)
      with ps have "pos < q" by (rule array_elements_child_pos)
      with b show ?thesis by simp
    qed
  qed
qed

lemma to_json_pos_rel_iff:
  "to_json_pos_rel (f', v', m', q) (float_str, value, metadata, pos)
   \<longleftrightarrow> f' = float_str \<and> v' = value \<and> m' = metadata
       \<and> q \<in> set (child_positions value metadata pos)"
proof
  assume "to_json_pos_rel (f', v', m', q) (float_str, value, metadata, pos)"
  then show "f' = float_str \<and> v' = value \<and> m' = metadata
      \<and> q \<in> set (child_positions value metadata pos)"
    by (cases rule: to_json_pos_rel.cases) (force simp: child_positions_def)+
next
  assume a: "f' = float_str \<and> v' = value \<and> m' = metadata
      \<and> q \<in> set (child_positions value metadata pos)"
  then have q: "q \<in> set (child_positions value metadata pos)" by simp
  show "to_json_pos_rel (f', v', m', q) (float_str, value, metadata, pos)"
  proof (cases "get_type value pos")
    case (Inl e)
    with q show ?thesis by (simp add: child_positions_def)
  next
    case (Inr t)
    show ?thesis
    proof (cases "t = TDict")
      case True
      with q Inr obtain kvs k where "object_fields value metadata pos = Inr kvs" "(k, q) \<in> set kvs"
        by (cases "object_fields value metadata pos") (force simp: child_positions_def)+
      with Inr True a show ?thesis
        by (auto intro: to_json_pos_rel.intros(1) [where x = "(k, q)"])
    next
      case False
      with q Inr have T: "t = TArray"
        by (cases "t = TArray") (simp_all add: child_positions_def)
      with q Inr False obtain ps where "array_elements value pos = Inr ps" "q \<in> set ps"
        by (cases "array_elements value pos") (force simp: child_positions_def)+
      with Inr False T a show ?thesis
        by (auto intro: to_json_pos_rel.intros(2))
    qed
  qed
qed

lemma to_python_pos_rel_iff:
  "to_python_pos_rel (v', m', q) (value, metadata, pos)
   \<longleftrightarrow> v' = value \<and> m' = metadata
       \<and> q \<in> set (child_positions value metadata pos)"
proof
  assume "to_python_pos_rel (v', m', q) (value, metadata, pos)"
  then show "v' = value \<and> m' = metadata
      \<and> q \<in> set (child_positions value metadata pos)"
    by (cases rule: to_python_pos_rel.cases) (force simp: child_positions_def)+
next
  assume a: "v' = value \<and> m' = metadata
      \<and> q \<in> set (child_positions value metadata pos)"
  then have q: "q \<in> set (child_positions value metadata pos)" by simp
  show "to_python_pos_rel (v', m', q) (value, metadata, pos)"
  proof (cases "get_type value pos")
    case (Inl e)
    with q show ?thesis by (simp add: child_positions_def)
  next
    case (Inr t)
    show ?thesis
    proof (cases "t = TDict")
      case True
      with q Inr obtain kvs k where "object_fields value metadata pos = Inr kvs" "(k, q) \<in> set kvs"
        by (cases "object_fields value metadata pos") (force simp: child_positions_def)+
      with Inr True a show ?thesis
        by (auto intro: to_python_pos_rel.intros(1) [where x = "(k, q)"])
    next
      case False
      with q Inr have T: "t = TArray"
        by (cases "t = TArray") (simp_all add: child_positions_def)
      with q Inr False obtain ps where "array_elements value pos = Inr ps" "q \<in> set ps"
        by (cases "array_elements value pos") (force simp: child_positions_def)+
      with Inr False T a show ?thesis
        by (auto intro: to_python_pos_rel.intros(2))
    qed
  qed
qed

lemma nested_calls_bound:
  "successively (\<lambda>p q. q \<in> set (child_positions value metadata p)) (pos # calls)
   \<Longrightarrow> int (length calls) \<le> max 0 (len value - pos)"
proof (induction calls arbitrary: pos)
  case Nil
  then show ?case by simp
next
  case (Cons q calls)
  from Cons.prems have q: "q \<in> set (child_positions value metadata pos)"
    and rest: "successively (\<lambda>p q. q \<in> set (child_positions value metadata p)) (q # calls)"
    by simp_all
  from child_positions_after [OF q] Cons.IH [OF rest] show ?case
    by (auto simp: max_def split: if_splits)
qed

lemma to_json_pos_total: "to_json_pos_dom (float_str, value, metadata, pos)"
proof -
  have "All to_json_pos_dom"
  proof (rule "to_json_pos.termination")
    show "wf (measure (\<lambda>(float_str, value, metadata, pos). nat (len value - pos)))" by simp
  next
    fix float_str :: "bytes \<Rightarrow> string" and "value" metadata :: bytes and pos :: int
      and b kvs x k p
    assume "get_type value pos = Inr b" "object_fields value metadata pos = Inr kvs"
      "x \<in> set kvs" "(k, p) = x"
    then show "((float_str, value, metadata, p), (float_str, value, metadata, pos))
        \<in> measure (\<lambda>(float_str, value, metadata, pos). nat (len value - pos))"
      using object_fields_child_pos [of "value" metadata pos kvs k p]
        get_type_Inr_bounds [of "value" pos]
      by auto
  next
    fix float_str :: "bytes \<Rightarrow> string" and "value" metadata :: bytes and pos :: int
      and b ps p
    assume "get_type value pos = Inr b" "array_elements value pos = Inr ps" "p \<in> set ps"
    then show "((float_str, value, metadata, p), (float_str, value, metadata, pos))
        \<in> measure (\<lambda>(float_str, value, metadata, pos). nat (len value - pos))"
      using array_elements_child_pos [of "value" pos ps p] get_type_Inr_bounds [of "value" pos]
      by auto
  qed
  then show ?thesis ..
qed

lemma to_python_pos_total: "to_python_pos_dom (value, metadata, pos)"
proof -
  have "All to_python_pos_dom"
  proof (rule "to_python_pos.termination")
    show "wf (measure (\<lambda>(value, metadata, pos). nat (len value - pos)))" by simp
  next
    fix "value" metadata :: bytes and pos :: int
      and b kvs x k p
    assume "get_type value pos = Inr b" "object_fields value metadata pos = Inr kvs"
      "x \<in> set kvs" "(k, p) = x"
    then show "((value, metadata, p), (value, metadata, pos))
        \<in> measure (\<lambda>(value, metadata, pos). nat (len value - pos))"
      using object_fields_child_pos [of "value" metadata pos kvs k p]
        get_type_Inr_bounds [of "value" pos]
      by auto
  next
    fix "value" metadata :: bytes and pos :: int
      and b ps p
    assume "get_type value pos = Inr b" "array_elements value pos = Inr ps" "p \<in> set ps"
    then show "((value, metadata, p), (value, metadata, pos))
        \<in> measure (\<lambda>(value, metadata, pos). nat (len value - pos))"
      using array_elements_child_pos [of "value" pos ps p] get_type_Inr_bounds [of "value" pos]
      by auto
  qed
  then show ?thesis ..
qed


lemma nested_calls_le_length:
  assumes "successively (\<lambda>p q. q \<in> set (child_positions value metadata p)) (pos # calls)"
  shows "length calls \<le> length value"
proof (cases calls)
  case Nil
  then show ?thesis by simp
next
  case (Cons q rest)
  with assms have "q \<in> set (child_positions value metadata pos)" by simp
  then have "0 \<le> pos" by (simp add: child_positions_after)
  with nested_calls_bound [OF assms] show ?thesis by (simp add: len_def)
qed

text \<open>
  Claim C10. Every child position that \<open>_handle_object\<close> and \<open>_handle_array\<close> hand to their
  callback is strictly greater than the position of the container. The recursive calls of
  \<open>_to_json\<close> and of \<open>_to_python\<close> from a position are exactly the calls at its child positions
  (\<open>to_json_pos_rel\<close> and \<open>to_python_pos_rel\<close> are the call relations of the two functions).
  Hence a chain of nested calls below a position is no longer than the value buffer, and both
  functions terminate on every input (every argument is in their domain). The recursion limit
  of the Python interpreter is not part of the model.
\<close>

theorem child_positions_increase_and_decoding_terminates:
  "(object_fields value metadata pos = Inr kvs \<longrightarrow> (\<forall>kp \<in> set kvs. pos < snd kp))
   \<and> (array_elements value pos = Inr ps \<longrightarrow> (\<forall>p \<in> set ps. pos < p))
   \<and> (to_json_pos_rel (f', v', m', q) (float_str, value, metadata, pos)
        \<longleftrightarrow> f' = float_str \<and> v' = value \<and> m' = metadata
            \<and> q \<in> set (child_positions value metadata pos))
   \<and> (to_python_pos_rel (v', m', q) (value, metadata, pos)
        \<longleftrightarrow> v' = value \<and> m' = metadata \<and> q \<in> set (child_positions value metadata pos))
   \<and> (successively (\<lambda>p q. q \<in> set (child_positions value metadata p)) (pos # calls)
        \<longrightarrow> length calls \<le> length value)
   \<and> to_json_pos_dom (float_str, value, metadata, pos)
   \<and> to_python_pos_dom (value, metadata, pos)"
proof -
  have "object_fields value metadata pos = Inr kvs \<longrightarrow> (\<forall>kp \<in> set kvs. pos < snd kp)"
    using object_fields_child_pos [of "value" metadata pos kvs] by auto
  moreover have "array_elements value pos = Inr ps \<longrightarrow> (\<forall>p \<in> set ps. pos < p)"
    using array_elements_child_pos [of "value" pos ps] by auto
  ultimately show ?thesis
    using to_json_pos_rel_iff [of f' v' m' q float_str "value" metadata pos]
      to_python_pos_rel_iff [of v' m' q "value" metadata pos]
      nested_calls_le_length [of "value" metadata pos calls]
      to_json_pos_total [of float_str "value" metadata pos]
      to_python_pos_total [of "value" metadata pos]
    by blast
qed

theorem child_positions_increase_and_decoding_terminates_witness:
  "object_fields [0x02, 0x01, 0x00, 0x00, 0x01, 0x00] [0x01, 0x01, 0x00, 0x01, 0x61] 0
     = Inr [([97], 5)]
   \<and> (0 :: int) < snd ([97 :: nat], 5 :: int)
   \<and> array_elements [0x03, 0x01, 0x00, 0x01, 0x00] 0 = Inr [4]
   \<and> (0 :: int) < 4
   \<and> successively (\<lambda>p q. q \<in> set (child_positions [0x03, 0x01, 0x00, 0x01, 0x00] [] p)) [0, 4]
   \<and> length [4 :: int] \<le> length [0x03, 0x01, 0x00, 0x01, 0x00 :: byte]
   \<and> to_json_pos_dom (\<lambda>_. [], [0x03, 0x01, 0x00, 0x01, 0x00], [], 0)
   \<and> to_python_pos_dom ([0x03, 0x01, 0x00, 0x01, 0x00], [], 0)"
proof -
  have o: "object_fields [0x02, 0x01, 0x00, 0x00, 0x01, 0x00] [0x01, 0x01, 0x00, 0x01, 0x61] 0
     = Inr [([97], 5)]"
    by code_simp
  have a: "array_elements [0x03, 0x01, 0x00, 0x01, 0x00] 0 = Inr [4]"
    by code_simp
  have c: "child_positions [0x03, 0x01, 0x00, 0x01, 0x00] [] 0 = [4]"
    by code_simp
  have s: "successively (\<lambda>p q. q \<in> set (child_positions [0x03, 0x01, 0x00, 0x01, 0x00] [] p))
     [0, 4]"
    by (simp add: c)
  from child_positions_increase_and_decoding_terminates
    [of "[0x02, 0x01, 0x00, 0x00, 0x01, 0x00]" "[0x01, 0x01, 0x00, 0x01, 0x61]" 0 "[([97], 5)]"] o
  have 1: "(0 :: int) < snd ([97 :: nat], 5 :: int)" by simp
  from child_positions_increase_and_decoding_terminates
    [of "[0x03, 0x01, 0x00, 0x01, 0x00]" "[]" 0 _ "[4]" _ _ _ _ "\<lambda>_. []" "[4]"] a s
  have 2: "(0 :: int) < 4 \<and> length [4 :: int] \<le> length [0x03, 0x01, 0x00, 0x01, 0x00 :: byte]
     \<and> to_json_pos_dom (\<lambda>_. [], [0x03, 0x01, 0x00, 0x01, 0x00], [], 0)
     \<and> to_python_pos_dom ([0x03, 0x01, 0x00, 0x01, 0x00], [], 0)"
    by simp
  from o a s 1 2 show ?thesis by blast
qed


section \<open>Reads past the end of the value buffer\<close>

text \<open>
  Claim C1. Every read of a range that runs past the end of its buffer makes \<open>to_json\<close>
  and \<open>to_python\<close> fail with \<open>Exception("Malformed Variant")\<close>, in particular the read of
  the eight bytes of a double and the reads of the scale byte and of the unscaled integer
  of a decimal. The code does not do so for two of these reads, which have no bounds
  check: on the one-byte value \<open>[0x1C]\<close> (the header of a double, no payload) the slice
  \<open>value[pos + 1 : pos + 9]\<close> is empty and \<open>struct.unpack\<close> raises \<open>struct.error\<close>; on the
  one-byte value \<open>[0x20]\<close> (the header of a Decimal4, no scale byte) the index
  \<open>value[pos + 1]\<close> raises \<open>IndexError\<close>. The theorem evaluates both materializers on
  both inputs.
\<close>

theorem unchecked_double_and_scale_reads:
  "to_json (\<lambda>_. []) [0x1C] [0x01, 0x00, 0x00] = Inl StructError
   \<and> to_python [0x1C] [0x01, 0x00, 0x00] = Inl StructError
   \<and> to_json (\<lambda>_. []) [0x20] [0x01, 0x00, 0x00] = Inl IndexError
   \<and> to_python [0x20] [0x01, 0x00, 0x00] = Inl IndexError"
  by code_simp

section \<open>Decimals of more than 28 digits\<close>

lemma num_digits_example: "num_digits 10000000000000000000000000001 = 29"
  by (simp add: num_digits_def str_nat.simps)

lemma decimal_fix_example:
  "decimal_fix (Decimal False 10000000000000000000000000001 0)
     = Decimal False 1000000000000000000000000000 1"
  by (simp add: decimal_fix_def PREC_def num_digits_example Let_def num_digits_def str_nat.simps)

lemma decimal16_example_header:
  "get_type_info [0x28, 0x00, 0x01, 0x00, 0x00, 0x10, 0x61, 0x02, 0x25, 0x3E, 0x5E, 0xCE,
     0x4F, 0x20, 0x00, 0x00, 0x00, 0x00] 0 = Inr (PRIMITIVE, DECIMAL16)"
  by code_simp

lemma decimal16_example_scale:
  "py_index [0x28, 0x00, 0x01, 0x00, 0x00, 0x10, 0x61, 0x02, 0x25, 0x3E, 0x5E, 0xCE,
     0x4F, 0x20, 0x00, 0x00, 0x00, 0x00 :: byte] (0 + 1) = Inr 0"
  by code_simp

lemma decimal16_example_unscaled:
  "from_bytes (py_slice [0x28, 0x00, 0x01, 0x00, 0x00, 0x10, 0x61, 0x02, 0x25, 0x3E, 0x5E, 0xCE,
     0x4F, 0x20, 0x00, 0x00, 0x00, 0x00] (0 + 2) (0 + 18)) True = 10000000000000000000000000001"
  by code_simp

lemma decimal16_example_decoded:
  "get_decimal [0x28, 0x00, 0x01, 0x00, 0x00, 0x10, 0x61, 0x02, 0x25, 0x3E, 0x5E, 0xCE,
     0x4F, 0x20, 0x00, 0x00, 0x00, 0x00] 0 = Inr (Decimal False 1000000000000000000000000000 1)"
  unfolding get_decimal_def decimal16_example_header decimal16_example_scale
    decimal16_example_unscaled
  by (simp add: check_index_def len_def variant_consts decimal_mul_def decimal_of_int_def
      decimal_ten_pow_neg_def decimal_fix_example)

text \<open>
  Claim C2. The decoded decimal is the exact rational \<open>u * 10^(-s)\<close> for every unscaled
  integer \<open>u\<close>, also for the 16-byte integers of up to 39 digits. The code multiplies
  two \<open>decimal.Decimal\<close> values in the default context, whose precision is 28 digits, so
  the product of a longer unscaled integer is rounded. The Decimal16 value below has
  scale 0 and the 29-digit unscaled integer \<open>10^28 + 1\<close>; the code returns
  \<open>Decimal('1.000000000000000000000000000E+28')\<close>, which is \<open>10^28\<close>.
\<close>

theorem get_decimal_rounds_to_28_digits:
  "get_decimal [0x28, 0x00, 0x01, 0x00, 0x00, 0x10, 0x61, 0x02, 0x25, 0x3E, 0x5E, 0xCE,
     0x4F, 0x20, 0x00, 0x00, 0x00, 0x00] 0 = Inr (Decimal False 1000000000000000000000000000 1)
   \<and> from_bytes (py_slice [0x28, 0x00, 0x01, 0x00, 0x00, 0x10, 0x61, 0x02, 0x25, 0x3E, 0x5E,
        0xCE, 0x4F, 0x20, 0x00, 0x00, 0x00, 0x00] 2 18) True = 10000000000000000000000000001
   \<and> decimal_value (Decimal False 1000000000000000000000000000 1)
        \<noteq> 10000000000000000000000000001 / 10 ^ 0"
proof -
  have "decimal_value (Decimal False 1000000000000000000000000000 1)
        \<noteq> 10000000000000000000000000001 / 10 ^ 0"
    by (simp add: decimal_value_def)
  moreover have "from_bytes (py_slice [0x28, 0x00, 0x01, 0x00, 0x00, 0x10, 0x61, 0x02, 0x25,
        0x3E, 0x5E, 0xCE, 0x4F, 0x20, 0x00, 0x00, 0x00, 0x00 :: byte] 2 18) True
      = 10000000000000000000000000001"
    using decimal16_example_unscaled by simp
  ultimately show ?thesis
    using decimal16_example_decoded by simp
qed

section \<open>The decimal example of the specification\<close>

text \<open>
  Claim C4, as stated: on the value \<open>[0x0A, 0x02, 0x64]\<close> and a minimal metadata buffer,
  \<open>to_json\<close> returns \<open>"1.00"\<close>. It does not: the low two bits of \<open>0x0A\<close> are 2, the basic
  type of an object, and the object's offset table runs past the buffer.
\<close>

theorem spec_decimal_example_is_malformed:
  "to_json (\<lambda>_. []) [0x0A, 0x02, 0x64] [0x01, 0x00, 0x00] = Inl MalformedVariant"
  by code_simp

text \<open>
  Claim C4, amended: the header byte of a Decimal4 is \<open>0x20\<close> (type info 8, basic type 0)
  and its unscaled integer takes four bytes. On \<open>[0x20, 0x02, 0x64, 0x00, 0x00, 0x00]\<close>
  (scale 2, unscaled 100) \<open>to_json\<close> returns \<open>"1.00"\<close>, whatever the metadata; the buffer
  \<open>[0x0A, 0x02, 0x64]\<close> is read as an object and is malformed.
\<close>

theorem decimal4_example_to_json:
  "to_json float_str [0x20, 0x02, 0x64, 0x00, 0x00, 0x00] metadata = Inr ''1.00''
   \<and> get_type [0x0A, 0x02, 0x64] 0 = Inr TDict
   \<and> to_json float_str [0x0A, 0x02, 0x64] metadata = Inl MalformedVariant"
  by code_simp

end
